theory Spec2Isabelle
  imports Main
begin

section \<open>JavaScript values and objects\<close>

text \<open>
  The values the wrapper handles. Among the primitives, \<open>Num n\<close> is a finite number
  (\<open>Num 0\<close> is \<^verbatim>\<open>+0\<close>; a number with a fraction behaves as an integer does in all
  that follows), \<open>NaN\<close> and \<open>NegZero\<close> are \<^verbatim>\<open>NaN\<close> and \<^verbatim>\<open>-0\<close>. An object or a
  function carries its address: \<open>FunRef\<close> is a function and \<open>ObjRef\<close> an object of
  the application (a plain object, an array, or any other object not listed here); a
  \<^verbatim>\<open>Date\<close> carries its time (\<open>None\<close> for an invalid date), a \<^verbatim>\<open>RegExp\<close> its text
  (such as \<^verbatim>\<open>/a/i\<close>), the wrapper objects \<^verbatim>\<open>new String\<close>, \<^verbatim>\<open>new Number\<close> and
  \<^verbatim>\<open>new Boolean\<close> the primitive they wrap, a \<^verbatim>\<open>Map\<close> or a \<^verbatim>\<open>Set\<close> whether it is
  empty. An address holds one object, so two values with the same address are the same
  value. \<open>Builtin k\<close> is the value found under the name \<open>k\<close> on a built-in prototype.
  A component (\<open>Comp\<close>) is a function or an object together with its own properties,
  each property with its descriptor (value, enumerable, writable, configurable); only
  data properties are modelled. A component is given by its content, not by an
  address.
\<close>

type_synonym key = string

datatype jsnum = Finite int | NotANumber | MinusZero

datatype val =
    Undefined
  | Null
  | Bool bool
  | Num int
  | NaN
  | NegZero
  | BigInt int
  | Str string
  | Sym string
  | FunRef nat
  | ObjRef nat
  | DateObj nat "int option"
  | RegExpObj nat string
  | StringObj nat string
  | NumberObj nat jsnum
  | BooleanObj nat bool
  | MapObj nat bool
  | SetObj nat bool
  | Builtin string
  | Comp component
and pdesc =
    Data (pd_value: val) (pd_enumerable: bool) (pd_writable: bool) (pd_configurable: bool)
and component =
    Component (callable: bool) (own: "(key \<times> pdesc) list")

text \<open>An object literal or a properties object: its own enumerable data properties.\<close>

type_synonym obj = "(key \<times> val) list"

datatype error =
    Error string
  | TypeError_not_a_function
  | TypeError_read_of_undefined
  | TypeError_cannot_redefine
  | TypeError_read_only
  | TypeError_not_an_object

fun truthy :: "val \<Rightarrow> bool" where
  "truthy Undefined = False"
| "truthy Null = False"
| "truthy (Bool b) = b"
| "truthy (Num n) = (n \<noteq> 0)"
| "truthy NaN = False"
| "truthy NegZero = False"
| "truthy (BigInt n) = (n \<noteq> 0)"
| "truthy (Str s) = (s \<noteq> [])"
| "truthy _ = True"

fun is_function :: "val \<Rightarrow> bool" where
  "is_function (FunRef _) = True"
| "is_function (Builtin k) = (k \<noteq> ''__proto__'')"
| "is_function (Comp c) = callable c"
| "is_function _ = False"

text \<open>
  Every object literal inherits from \<^verbatim>\<open>Object.prototype\<close>, so a property read
  \<^verbatim>\<open>o[k]\<close> that finds no own property \<open>k\<close> continues there. These are the names
  the standard puts on \<^verbatim>\<open>Object.prototype\<close>.
\<close>

definition Object_prototype_keys :: "key list" where
  "Object_prototype_keys =
     [''constructor'', ''hasOwnProperty'', ''isPrototypeOf'', ''propertyIsEnumerable'',
      ''toLocaleString'', ''toString'', ''valueOf'', ''__proto__'',
      ''__defineGetter__'', ''__defineSetter__'', ''__lookupGetter__'', ''__lookupSetter__'']"

definition Object_prototype :: "key \<Rightarrow> val option" where
  "Object_prototype k = (if k \<in> set Object_prototype_keys then Some (Builtin k) else None)"

definition own_keys :: "obj \<Rightarrow> key list" where
  "own_keys ob = remdups (map fst ob)"

definition js_get :: "obj \<Rightarrow> key \<Rightarrow> val" where
  "js_get ob k =
     (case map_of ob k of
        Some v \<Rightarrow> v
      | None \<Rightarrow> (case Object_prototype k of Some v \<Rightarrow> v | None \<Rightarrow> Undefined))"

section \<open>The reactive engine\<close>

text \<open>
  The reactive engine (mobx) is not part of this repository; the wrapper uses its
  comparers, its computed values, its observable box and its actions. A comparer is
  taken by the truth value of what it returns; comparers that throw are left out.

  \<^verbatim>\<open>comparer.identity\<close> is \<^verbatim>\<open>Object.is\<close>: \<^verbatim>\<open>NaN\<close> is itself, \<^verbatim>\<open>+0\<close> is not
  \<^verbatim>\<open>-0\<close>, an object is only itself.
\<close>

type_synonym comparer = "val \<Rightarrow> val \<Rightarrow> bool"

definition comparer_identity :: comparer where
  "comparer_identity a b = (a = b)"

text \<open>
  \<^verbatim>\<open>comparer.shallow\<close> is the engine's \<^verbatim>\<open>deepEqual(a, b, 1)\<close>. On two properties
  objects (plain objects) it takes the same object for equal, and otherwise asks for the
  same number of own enumerable keys and, for every key of the first, an own property of
  the second whose value is equal at depth 0. \<open>eq0\<close> is that comparison at depth 0,
  in the order of the engine's code:
  \<^item> \<^verbatim>\<open>a === b\<close>: equal, unless they are \<^verbatim>\<open>+0\<close> and \<^verbatim>\<open>-0\<close>;
  \<^item> one of them \<^verbatim>\<open>null\<close> or \<^verbatim>\<open>undefined\<close>: not equal;
  \<^item> \<^verbatim>\<open>a\<close> is \<^verbatim>\<open>NaN\<close>: equal when \<^verbatim>\<open>b\<close> is \<^verbatim>\<open>NaN\<close>;
  \<^item> \<^verbatim>\<open>a\<close> is a primitive and \<^verbatim>\<open>typeof b\<close> is not \<^verbatim>\<open>'object'\<close>: not equal;
  \<^item> the class names \<^verbatim>\<open>Object.prototype.toString\<close> gives differ: not equal;
  \<^item> strings and regular expressions by their text, numbers by their numeric value,
    dates and booleans by their numeric value (an invalid date equals none), a symbol
    never; a \<^verbatim>\<open>Map\<close> or \<^verbatim>\<open>Set\<close> is unwrapped to the array of its entries, which adds
    one level, so two of them are equal at depth 0 when both are empty;
  \<^item> anything else (functions, arrays, objects) at depth 0: not equal.
\<close>

datatype class_name =
    CUndefined | CNull | CBoolean | CNumber | CBigInt | CString | CSymbol | CFunction
  | CDate | CRegExp | CMap | CSet | COther

fun class_of :: "val \<Rightarrow> class_name" where
  "class_of Undefined = CUndefined"
| "class_of Null = CNull"
| "class_of (Bool _) = CBoolean"
| "class_of (BooleanObj _ _) = CBoolean"
| "class_of (Num _) = CNumber"
| "class_of NaN = CNumber"
| "class_of NegZero = CNumber"
| "class_of (NumberObj _ _) = CNumber"
| "class_of (BigInt _) = CBigInt"
| "class_of (Str _) = CString"
| "class_of (StringObj _ _) = CString"
| "class_of (Sym _) = CSymbol"
| "class_of (FunRef _) = CFunction"
| "class_of (Builtin k) = (if k = ''__proto__'' then COther else CFunction)"
| "class_of (Comp c) = (if callable c then CFunction else COther)"
| "class_of (DateObj _ _) = CDate"
| "class_of (RegExpObj _ _) = CRegExp"
| "class_of (MapObj _ _) = CMap"
| "class_of (SetObj _ _) = CSet"
| "class_of (ObjRef _) = COther"

fun is_primitive :: "val \<Rightarrow> bool" where
  "is_primitive Undefined = True"
| "is_primitive (Bool _) = True"
| "is_primitive (Num _) = True"
| "is_primitive NaN = True"
| "is_primitive NegZero = True"
| "is_primitive (BigInt _) = True"
| "is_primitive (Str _) = True"
| "is_primitive (Sym _) = True"
| "is_primitive _ = False"

text \<open>\<^verbatim>\<open>typeof v === 'object'\<close>.\<close>

fun typeof_object :: "val \<Rightarrow> bool" where
  "typeof_object Null = True"
| "typeof_object (ObjRef _) = True"
| "typeof_object (DateObj _ _) = True"
| "typeof_object (RegExpObj _ _) = True"
| "typeof_object (StringObj _ _) = True"
| "typeof_object (NumberObj _ _) = True"
| "typeof_object (BooleanObj _ _) = True"
| "typeof_object (MapObj _ _) = True"
| "typeof_object (SetObj _ _) = True"
| "typeof_object (Builtin k) = (k = ''__proto__'')"
| "typeof_object (Comp c) = (\<not> callable c)"
| "typeof_object _ = False"

definition is_zero :: "val \<Rightarrow> bool" where
  "is_zero v = (v = Num 0 \<or> v = NegZero)"

text \<open>\<^verbatim>\<open>a === b\<close>: \<^verbatim>\<open>NaN\<close> equals nothing, \<^verbatim>\<open>+0\<close> equals \<^verbatim>\<open>-0\<close>.\<close>

definition strict_equal :: "val \<Rightarrow> val \<Rightarrow> bool" where
  "strict_equal a b =
     (if a = NaN \<or> b = NaN then False
      else if is_zero a \<and> is_zero b then True
      else a = b)"

text \<open>\<^verbatim>\<open>'' + v\<close> for a string or a regular expression, \<^verbatim>\<open>+v\<close> for the other classes.\<close>

fun text_of :: "val \<Rightarrow> string option" where
  "text_of (Str s) = Some s"
| "text_of (StringObj _ s) = Some s"
| "text_of (RegExpObj _ s) = Some s"
| "text_of _ = None"

fun numeric :: "val \<Rightarrow> jsnum option" where
  "numeric (Num n) = Some (Finite n)"
| "numeric NaN = Some NotANumber"
| "numeric NegZero = Some MinusZero"
| "numeric (NumberObj _ x) = Some x"
| "numeric (Bool b) = Some (Finite (if b then 1 else 0))"
| "numeric (BooleanObj _ b) = Some (Finite (if b then 1 else 0))"
| "numeric (DateObj _ t) = Some (case t of None \<Rightarrow> NotANumber | Some ms \<Rightarrow> Finite ms)"
| "numeric _ = None"

fun is_empty :: "val \<Rightarrow> bool" where
  "is_empty (MapObj _ e) = e"
| "is_empty (SetObj _ e) = e"
| "is_empty _ = False"

definition eq0 :: "val \<Rightarrow> val \<Rightarrow> bool" where
  "eq0 a b =
     (if strict_equal a b then (\<not> is_zero a \<or> a = b)
      else if a = Undefined \<or> a = Null \<or> b = Undefined \<or> b = Null then False
      else if a = NaN then b = NaN
      else if is_primitive a \<and> \<not> typeof_object b then False
      else if class_of a \<noteq> class_of b then False
      else (case class_of a of
              CRegExp \<Rightarrow> text_of a = text_of b
            | CString \<Rightarrow> text_of a = text_of b
            | CNumber \<Rightarrow> numeric a = numeric b
            | CDate \<Rightarrow> numeric a = numeric b \<and> numeric a \<noteq> Some NotANumber
            | CBoolean \<Rightarrow> numeric a = numeric b
            | CSymbol \<Rightarrow> False
            | CMap \<Rightarrow> is_empty a \<and> is_empty b
            | CSet \<Rightarrow> is_empty a \<and> is_empty b
            | _ \<Rightarrow> False))"

definition comparer_shallow :: "obj \<Rightarrow> obj \<Rightarrow> bool" where
  "comparer_shallow a b =
     (length (own_keys a) = length (own_keys b) \<and>
      list_all (\<lambda>k. case (map_of a k, map_of b k) of
                       (Some x, Some y) \<Rightarrow> eq0 x y
                     | _ \<Rightarrow> False) (own_keys a))"


text \<open>
  A computed value of the reactive engine is a memoized computation with a pluggable
  equality comparator. The computation built by \<^verbatim>\<open>createModel\<close> is
  \<^verbatim>\<open>() => getProps()[key]\<close>, so a computed value records its key; \<open>c_id\<close> is the
  identity of the computed object.

  While no reaction observes it, a computed value caches nothing: every read runs the
  computation and returns its result, and the comparator is never called
  (\<open>c_value = None\<close>). While a reaction observes it, it holds the value it last
  settled on (\<open>c_value = Some old\<close>): a read runs the computation when what it
  depends on has changed, keeps and returns \<open>old\<close> when the comparator takes
  \<open>old\<close> and the new result for equal, and stores and returns the new result
  otherwise. Reading a property of \<^verbatim>\<open>undefined\<close> raises a TypeError.
\<close>

record computed =
  c_id :: nat
  c_key :: key
  c_equals :: comparer
  c_value :: "val option"

definition computed_get :: "obj option \<Rightarrow> computed \<Rightarrow> (error + val) \<times> computed" where
  "computed_get snapshot c =
     (case snapshot of
        None \<Rightarrow> (Inl TypeError_read_of_undefined, c)
      | Some s \<Rightarrow>
          (let new = js_get s (c_key c) in
           case c_value c of
             None \<Rightarrow> (Inr new, c)
           | Some old \<Rightarrow>
               if c_equals c old new then (Inr old, c)
               else (Inr new, c\<lparr>c_value := Some new\<rparr>)))"

text \<open>
  A reaction (the render of an observer, an autorun, an observed computed value) that
  has read a computed value observes it from then on: the computed value starts to hold
  the value it has just computed. When its last observer is gone it is suspended and
  drops that value.
\<close>

definition observe :: "obj \<Rightarrow> computed \<Rightarrow> computed" where
  "observe s c =
     (case c_value c of
        None \<Rightarrow> c\<lparr>c_value := Some (js_get s (c_key c))\<rparr>
      | Some _ \<Rightarrow> c)"

definition suspend :: "computed \<Rightarrow> computed" where
  "suspend c = c\<lparr>c_value := None\<rparr>"

section \<open>ReactModel and createModel\<close>

text \<open>
  The \<^verbatim>\<open>get\<close> property of a model holds one of three things: the function
  \<^verbatim>\<open>die\<close> that the constructor of \<^verbatim>\<open>ReactModel\<close> stores, the closure that
  \<^verbatim>\<open>createModel\<close> assigns, or \<^verbatim>\<open>null\<close>, which \<^verbatim>\<open>dispose\<close> assigns.
  A model class is given by the annotations its constructor passes to
  \<^verbatim>\<open>super\<close> (\<open>None\<close> when it passes nothing). The annotations are an object
  literal: \<open>entries a k\<close> is its own property \<open>k\<close>, if it has one, which holds a
  comparer or \<^verbatim>\<open>undefined\<close>/\<^verbatim>\<open>null\<close> (\<open>Some None\<close>). For a name \<open>k\<close> of
  \<^verbatim>\<open>Object.prototype\<close> with no own property, the read \<^verbatim>\<open>annotations[k]\<close> finds the
  inherited value, and \<open>inherited_entry a k\<close> is what that value does when the reactive
  engine calls it as the comparer (\<^verbatim>\<open>Object.prototype.toString\<close>, for one, returns a
  non-empty string for any arguments, so it takes any two values for equal).
\<close>

datatype getter = Die | Installed | NullGet

datatype annotations =
  Annotations (entries: "key \<rightharpoonup> comparer option") (inherited_entry: "key \<Rightarrow> comparer")

type_synonym model_class = "annotations option"

record model =
  model_id :: nat
  annotations :: model_class
  get :: getter

definition ReactModel :: "nat \<Rightarrow> model_class \<Rightarrow> model" where
  "ReactModel i ann = \<lparr>model_id = i, annotations = ann, get = Die\<rparr>"

definition die :: "error + val" where
  "die = Inl (Error ''need to be reimplemented with useModel'')"

text \<open>
  What \<^verbatim>\<open>createModel\<close> returns, with the state its two closures share: the model,
  the \<^verbatim>\<open>Map\<close> from keys to computed values, and the number of computed values built
  so far (the identity given to the next one).
\<close>

record created =
  model :: model
  map_m :: "key \<rightharpoonup> computed"
  next_id :: nat

definition createModel :: "nat \<Rightarrow> model_class \<Rightarrow> created" where
  "createModel i Model =
     \<lparr>model = (ReactModel i Model)\<lparr>get := Installed\<rparr>, map_m = Map.empty, next_id = 0\<rparr>"

text \<open>\<^verbatim>\<open>model.annotations?.[key] ?? comparer.identity\<close>.\<close>

definition equals_for :: "model \<Rightarrow> key \<Rightarrow> comparer" where
  "equals_for m k =
     (case annotations m of
        None \<Rightarrow> comparer_identity
      | Some a \<Rightarrow>
          (case entries a k of
             Some (Some e) \<Rightarrow> e
           | Some None \<Rightarrow> comparer_identity
           | None \<Rightarrow>
               if k \<in> set Object_prototype_keys then inherited_entry a k
               else comparer_identity))"

definition installed_get :: "obj option \<Rightarrow> key \<Rightarrow> created \<Rightarrow> (error + val) \<times> created" where
  "installed_get snapshot k cr =
     (let (ref, cr1) =
        (case map_m cr k of
           Some r \<Rightarrow> (r, cr)
         | None \<Rightarrow>
             (let r = \<lparr>c_id = next_id cr, c_key = k, c_equals = equals_for (model cr) k,
                       c_value = None\<rparr>
              in (r, cr\<lparr>map_m := (map_m cr)(k \<mapsto> r), next_id := Suc (next_id cr)\<rparr>)));
          (res, ref') = computed_get snapshot ref
      in (res, cr1\<lparr>map_m := (map_m cr1)(k \<mapsto> ref')\<rparr>))"

text \<open>
  The closure \<^verbatim>\<open>createModel\<close> assigns to \<^verbatim>\<open>get\<close> is \<open>installed_get\<close>: it looks the key up
  in the \<^verbatim>\<open>Map\<close>, builds and stores a computed value (observed by nothing yet) when there
  is none, and reads the computed value. The computed value is an object the \<^verbatim>\<open>Map\<close> refers to, so the state
  the read leaves it in is the state found under the key afterwards.

  \<open>call_get\<close> is the call \<^verbatim>\<open>model.get(key)\<close>, with the value \<^verbatim>\<open>getProps()\<close> has at that
  time.
\<close>

definition call_get :: "obj option \<Rightarrow> key \<Rightarrow> created \<Rightarrow> (error + val) \<times> created" where
  "call_get snapshot k cr =
     (case get (model cr) of
        Die \<Rightarrow> (die, cr)
      | NullGet \<Rightarrow> (Inl TypeError_not_a_function, cr)
      | Installed \<Rightarrow> installed_get snapshot k cr)"

definition dispose :: "created \<Rightarrow> created" where
  "dispose cr = cr\<lparr>model := (model cr)\<lparr>get := NullGet\<rparr>, map_m := Map.empty\<rparr>"

text \<open>
  What happens to the computed value of a key when a reaction that has read the key
  starts to observe it, and when its last observer is gone.
\<close>

definition track :: "obj \<Rightarrow> key \<Rightarrow> created \<Rightarrow> created" where
  "track s k cr =
     (case map_m cr k of
        None \<Rightarrow> cr
      | Some c \<Rightarrow> cr\<lparr>map_m := (map_m cr)(k \<mapsto> observe s c)\<rparr>)"

definition untrack :: "key \<Rightarrow> created \<Rightarrow> created" where
  "untrack k cr =
     (case map_m cr k of
        None \<Rightarrow> cr
      | Some c \<Rightarrow> cr\<lparr>map_m := (map_m cr)(k \<mapsto> suspend c)\<rparr>)"

text \<open>
  What can happen to a model, in sequence: a read outside any reaction, a read inside
  a reaction (which observes the computed value from then on), and the end of the
  observation of a key. Each read has the snapshot of its time; the results are dropped.
  When the box has changed, the engine itself reads the computed values a reaction
  observes, to find out whether the reaction must run again; such a read acts on the
  computed value as \<open>Get\<close> does and is listed as one.
\<close>

datatype access = Get obj key | GetTracked obj key | Unobserve key

fun reads :: "access list \<Rightarrow> created \<Rightarrow> created" where
  "reads [] cr = cr"
| "reads (Get s k # rs) cr = reads rs (snd (call_get (Some s) k cr))"
| "reads (GetTracked s k # rs) cr = reads rs (track s k (snd (call_get (Some s) k cr)))"
| "reads (Unobserve k # rs) cr = reads rs (untrack k cr)"

fun accessed :: "access list \<Rightarrow> key list" where
  "accessed [] = []"
| "accessed (Get s k # rs) = k # accessed rs"
| "accessed (GetTracked s k # rs) = k # accessed rs"
| "accessed (Unobserve k # rs) = accessed rs"

text \<open>
  The state of the cache while the accessor is installed: the number of computed values
  built equals the number of keys in the \<^verbatim>\<open>Map\<close>, every entry was built for the key it
  is stored under, with the comparator configured for that key, and two entries never
  share a computed value.
\<close>

definition cache_inv :: "created \<Rightarrow> bool" where
  "cache_inv cr \<longleftrightarrow>
     get (model cr) = Installed \<and>
     finite (dom (map_m cr)) \<and>
     card (dom (map_m cr)) = next_id cr \<and>
     (\<forall>k c. map_m cr k = Some c \<longrightarrow>
        c_key c = k \<and> c_equals c = equals_for (model cr) k \<and> c_id c < next_id cr) \<and>
     (\<forall>k k' c c'. map_m cr k = Some c \<longrightarrow> map_m cr k' = Some c' \<longrightarrow> c_id c = c_id c' \<longrightarrow> k = k')"

section \<open>One mounted component instance\<close>

text \<open>
  The properties objects React hands to a component are immutable objects with an
  identity; a reference \<open>ref\<close> is the address of one, and the heap \<open>H\<close> gives the
  own properties of the object at each address.

  \<^verbatim>\<open>observable.box(props, { deep: false })\<close> is a cell with an identity that holds a
  reference. Its \<^verbatim>\<open>set\<close> keeps the cell as it is when the new value is the value held
  (\<^verbatim>\<open>comparer.default\<close>), and otherwise stores the value and reports the change.
  \<^verbatim>\<open>runInAction\<close> brackets what its argument does into one action. The log records
  the actions and the writes.
\<close>

type_synonym ref = nat

record box =
  b_id :: nat
  b_value :: ref

datatype event = ActionStart | ActionEnd | BoxSet nat ref

definition box_set :: "ref \<Rightarrow> box \<Rightarrow> event list \<Rightarrow> box \<times> event list" where
  "box_set v b evs =
     (if b_value b = v then (b, evs)
      else (b\<lparr>b_value := v\<rparr>, evs @ [BoxSet (b_id b) v]))"

text \<open>
  What one component instance keeps between renders: the two \<^verbatim>\<open>useRef\<close> cells, the
  dependency array \<^verbatim>\<open>[props]\<close> of the last run of the second effect, and whether the
  first effect has registered its cleanup. \<open>fresh\<close> is the identity the next allocated
  object gets. The hooks belong to React: a \<^verbatim>\<open>useRef\<close> cell starts as \<^verbatim>\<open>null\<close> and
  keeps what is stored in it across the renders of the instance; an effect runs after
  the commit of the first render and of every later render whose dependencies differ
  (by \<^verbatim>\<open>Object.is\<close>) from those of its last run; its cleanup runs at unmount.
\<close>

record inst =
  fresh :: nat
  refProps :: "box option"
  refModel :: "created option"
  deps :: "ref option"
  mounted :: bool
  log :: "event list"

definition new_instance :: "nat \<Rightarrow> inst" where
  "new_instance n =
     \<lparr>fresh = n, refProps = None, refModel = None, deps = None, mounted = False, log = []\<rparr>"

text \<open>The closure \<^verbatim>\<open>() => refProps.current?.get()\<close> passed to \<^verbatim>\<open>createModel\<close>.\<close>

definition getProps :: "(ref \<Rightarrow> obj) \<Rightarrow> inst \<Rightarrow> obj option" where
  "getProps H st = (case refProps st of None \<Rightarrow> None | Some b \<Rightarrow> Some (H (b_value b)))"

text \<open>The element \<^verbatim>\<open>observerComponent\<close> returns, with the identities of the model and the box.\<close>

record element =
  innerRef :: val
  e_model :: nat
  e_props :: nat

text \<open>The body of \<^verbatim>\<open>observerComponent\<close>: what runs during render.\<close>

definition observerComponent ::
  "model_class \<Rightarrow> ref \<Rightarrow> val \<Rightarrow> inst \<Rightarrow> (error + element) \<times> inst" where
  "observerComponent Model props rf st =
     (let st1 = (if refProps st = None
                 then st\<lparr>refProps := Some \<lparr>b_id = fresh st, b_value = props\<rparr>,
                        fresh := Suc (fresh st)\<rparr>
                 else st);
          st2 = (if refModel st1 = None
                 then st1\<lparr>refModel := Some (createModel (fresh st1) Model),
                         fresh := Suc (fresh st1)\<rparr>
                 else st1)
      in (case (refModel st2, refProps st2) of
            (Some m, Some b) \<Rightarrow>
              Inr \<lparr>innerRef = rf, e_model = model_id (model m), e_props = b_id b\<rparr>
          | _ \<Rightarrow> Inl TypeError_read_of_undefined,
          st2))"

text \<open>
  The second effect: inside one action, the box is set when the new properties are not
  shallow-equal to the ones it holds.
\<close>

definition sync_effect :: "(ref \<Rightarrow> obj) \<Rightarrow> ref \<Rightarrow> inst \<Rightarrow> inst" where
  "sync_effect H props st =
     (case refProps st of
        None \<Rightarrow> st
      | Some current \<Rightarrow>
          (let evs1 = log st @ [ActionStart];
               (b, evs2) = (if \<not> comparer_shallow (H props) (H (b_value current))
                            then box_set props current evs1
                            else (current, evs1))
           in st\<lparr>refProps := Some b, log := evs2 @ [ActionEnd]\<rparr>))"

text \<open>
  What React runs after a render is committed: the first effect (dependencies \<^verbatim>\<open>[]\<close>)
  on mount only, the second (dependencies \<^verbatim>\<open>[props]\<close>) on mount and whenever the
  properties object is not the one of its last run.
\<close>

definition commit :: "(ref \<Rightarrow> obj) \<Rightarrow> ref \<Rightarrow> inst \<Rightarrow> inst" where
  "commit H props st =
     (let st1 = (if mounted st then st else st\<lparr>mounted := True\<rparr>)
      in if deps st1 = Some props then st1
         else (sync_effect H props st1)\<lparr>deps := Some props\<rparr>)"

definition render_pass ::
  "(ref \<Rightarrow> obj) \<Rightarrow> model_class \<Rightarrow> ref \<Rightarrow> val \<Rightarrow> inst \<Rightarrow> inst" where
  "render_pass H Model props rf st = commit H props (snd (observerComponent Model props rf st))"

text \<open>The cleanup of the first effect, \<^verbatim>\<open>() => refModel.current?.dispose()\<close>, at unmount.\<close>

definition unmount :: "inst \<Rightarrow> inst" where
  "unmount st =
     (case refModel st of
        None \<Rightarrow> st\<lparr>mounted := False\<rparr>
      | Some m \<Rightarrow> st\<lparr>refModel := Some (dispose m), mounted := False\<rparr>)"

text \<open>A read \<^verbatim>\<open>model.get(key)\<close> made while the instance is alive.\<close>

definition model_read :: "(ref \<Rightarrow> obj) \<Rightarrow> key \<Rightarrow> inst \<Rightarrow> (error + val) \<times> inst" where
  "model_read H k st =
     (case refModel st of
        None \<Rightarrow> (Inl TypeError_read_of_undefined, st)
      | Some m \<Rightarrow>
          (let (res, m') = call_get (getProps H st) k m
           in (res, st\<lparr>refModel := Some m'\<rparr>)))"

text \<open>
  A reaction that has read a key starts to observe the computed value of the key, and
  the observation of a key ends.
\<close>

definition model_track :: "(ref \<Rightarrow> obj) \<Rightarrow> key \<Rightarrow> inst \<Rightarrow> inst" where
  "model_track H k st =
     (case (refModel st, getProps H st) of
        (Some m, Some s) \<Rightarrow> st\<lparr>refModel := Some (track s k m)\<rparr>
      | _ \<Rightarrow> st)"

definition model_untrack :: "key \<Rightarrow> inst \<Rightarrow> inst" where
  "model_untrack k st =
     (case refModel st of
        None \<Rightarrow> st
      | Some m \<Rightarrow> st\<lparr>refModel := Some (untrack k m)\<rparr>)"

text \<open>
  What happens to a mounted instance: renders with new properties, reads outside and
  inside a reaction (the reads the engine makes for a reaction are \<open>Read\<close> steps),
  and the end of the observation of a key.
\<close>

datatype step = Render ref val | Read key | ReadTracked key | StopObserving key

fun run :: "(ref \<Rightarrow> obj) \<Rightarrow> model_class \<Rightarrow> step list \<Rightarrow> inst \<Rightarrow> inst" where
  "run H Model [] st = st"
| "run H Model (Render props rf # steps) st = run H Model steps (render_pass H Model props rf st)"
| "run H Model (Read k # steps) st = run H Model steps (snd (model_read H k st))"
| "run H Model (ReadTracked k # steps) st =
     run H Model steps (model_track H k (snd (model_read H k st)))"
| "run H Model (StopObserving k # steps) st = run H Model steps (model_untrack k st)"

text \<open>
  What holds of an instance from its first committed render on: the box and the model
  exist, and the box holds properties shallow-equal to those of the last run of the
  second effect.
\<close>

definition mounted_inv :: "(ref \<Rightarrow> obj) \<Rightarrow> inst \<Rightarrow> bool" where
  "mounted_inv H st =
     (case (refProps st, refModel st, deps st) of
        (Some b, Some m, Some q) \<Rightarrow> mounted st \<and> comparer_shallow (H q) (H (b_value b))
      | _ \<Rightarrow> False)"

text \<open>The identities an instance holds: of its box, of its model, and the next free one.\<close>

definition ids :: "inst \<Rightarrow> nat option \<times> nat option \<times> nat" where
  "ids st = (map_option b_id (refProps st), map_option (\<lambda>m. model_id (model m)) (refModel st), fresh st)"

section \<open>Components as objects\<close>

text \<open>
  A property read on a component: an own property first, then what a function inherits
  from \<^verbatim>\<open>Function.prototype\<close>, then \<^verbatim>\<open>Object.prototype\<close>.
\<close>

definition Function_prototype_keys :: "key list" where
  "Function_prototype_keys =
     [''length'', ''name'', ''constructor'', ''apply'', ''bind'', ''call'', ''toString'']"

definition inherited :: "bool \<Rightarrow> key \<Rightarrow> val" where
  "inherited is_fun k =
     (if is_fun \<and> k \<in> set Function_prototype_keys then
        (if k = ''name'' then Str [] else if k = ''length'' then Num 0 else Builtin k)
      else (case Object_prototype k of Some v \<Rightarrow> v | None \<Rightarrow> Undefined))"

definition comp_get :: "component \<Rightarrow> key \<Rightarrow> val" where
  "comp_get c k =
     (case map_of (own c) k of Some d \<Rightarrow> pd_value d | None \<Rightarrow> inherited (callable c) k)"

text \<open>\<^verbatim>\<open>Object.keys\<close>: the own enumerable property names.\<close>

definition Object_keys :: "component \<Rightarrow> key list" where
  "Object_keys c =
     filter (\<lambda>k. case map_of (own c) k of Some d \<Rightarrow> pd_enumerable d | None \<Rightarrow> False)
       (remdups (map fst (own c)))"

text \<open>
  \<^verbatim>\<open>Object.defineProperty\<close> with a complete data descriptor, on an extensible object:
  a property that is not configurable accepts only a descriptor that keeps it so, keeps
  its enumerability and, when it is not writable either, keeps its value.
\<close>

definition defineProperty :: "component \<Rightarrow> key \<Rightarrow> pdesc \<Rightarrow> error + component" where
  "defineProperty target k d =
     (case map_of (own target) k of
        None \<Rightarrow> Inr (Component (callable target) (own target @ [(k, d)]))
      | Some cur \<Rightarrow>
          if \<not> pd_configurable cur \<and>
             (pd_configurable d \<or> pd_enumerable d \<noteq> pd_enumerable cur \<or>
              (\<not> pd_writable cur \<and> (pd_writable d \<or> pd_value d \<noteq> pd_value cur)))
          then Inl TypeError_cannot_redefine
          else Inr (Component (callable target)
                      (map (\<lambda>(k', d'). if k' = k then (k', d) else (k', d')) (own target))))"

text \<open>
  \<^verbatim>\<open>Object.defineProperty(target, 'name', { value, writable: true, configurable: true })\<close>:
  the descriptor names no enumerability, so an existing property keeps its own and a new
  one is not enumerable.
\<close>

definition define_name :: "component \<Rightarrow> val \<Rightarrow> error + component" where
  "define_name target v =
     defineProperty target ''name''
       (Data v (case map_of (own target) ''name'' of Some cur \<Rightarrow> pd_enumerable cur
                                                    | None \<Rightarrow> False) True True)"

text \<open>An assignment \<^verbatim>\<open>target.k = v\<close> in strict code, when no setter is inherited.\<close>

definition set_property :: "component \<Rightarrow> key \<Rightarrow> val \<Rightarrow> error + component" where
  "set_property target k v =
     (case map_of (own target) k of
        None \<Rightarrow> Inr (Component (callable target) (own target @ [(k, Data v True True True)]))
      | Some cur \<Rightarrow>
          if pd_writable cur
          then Inr (Component (callable target)
                      (map (\<lambda>(k', d'). if k' = k
                                        then (k', Data v (pd_enumerable d') True (pd_configurable d'))
                                        else (k', d')) (own target)))
          else Inl TypeError_read_only)"

section \<open>copyStaticProperties\<close>

definition hoistBlackList :: obj where
  "hoistBlackList =
     [(''$$typeof'', Bool True), (''render'', Bool True), (''compare'', Bool True),
      (''type'', Bool True), (''displayName'', Bool True)]"

text \<open>
  The loop of \<^verbatim>\<open>copyStaticProperties\<close> over \<^verbatim>\<open>Object.keys(base)\<close>. The test
  \<^verbatim>\<open>!hoistBlackList[key]\<close> is a property read on an object literal. A throw of
  \<^verbatim>\<open>Object.defineProperty\<close> ends the loop.
\<close>

fun copy_keys :: "component \<Rightarrow> key list \<Rightarrow> component \<Rightarrow> error + component" where
  "copy_keys base [] target = Inr target"
| "copy_keys base (key # keys) target =
     (if \<not> truthy (js_get hoistBlackList key) then
        (case map_of (own base) key of
           None \<Rightarrow> Inl TypeError_not_an_object
         | Some d \<Rightarrow>
             (case defineProperty target key d of
                Inl e \<Rightarrow> Inl e
              | Inr target' \<Rightarrow> copy_keys base keys target'))
      else copy_keys base keys target)"

definition copyStaticProperties :: "component \<Rightarrow> component \<Rightarrow> error + component" where
  "copyStaticProperties base target = copy_keys base (Object_keys base) target"


section \<open>observerWithModel\<close>

text \<open>
  The environment the module is loaded in: whether \<^verbatim>\<open>Symbol.for\<close> exists, whether the
  \<^verbatim>\<open>name\<close> of a function is configurable, and whether React has \<^verbatim>\<open>memo\<close> and
  \<^verbatim>\<open>forwardRef\<close>.

  React (not part of this repository) tags what \<^verbatim>\<open>memo\<close> and \<^verbatim>\<open>forwardRef\<close> return
  with the registered symbols, or with fixed numbers where symbols do not exist.
  \<^verbatim>\<open>React.memo(type)\<close> is the object \<^verbatim>\<open>{ $$typeof, type, compare: null }\<close>
  (\<open>memo_object\<close>); calling \<^verbatim>\<open>React.memo\<close> or \<^verbatim>\<open>forwardRef\<close> where React does not
  have it is a call of a value that is not a function.
  \<^verbatim>\<open>React.forwardRef(render)\<close> is the object \<^verbatim>\<open>{ $$typeof, render }\<close>, whatever
  \<^verbatim>\<open>render\<close> is: React calls \<^verbatim>\<open>render\<close> when it renders the component, so what it
  needs there is a function, and \<^verbatim>\<open>forwardRef\<close> itself does not throw.
\<close>

record env =
  hasSymbol :: bool
  isFunctionNameConfigurable :: bool
  React_has_memo :: bool
  React_has_forwardRef :: bool

definition lit :: "val \<Rightarrow> pdesc" where
  "lit v = Data v True True True"

definition REACT_MEMO_TYPE :: "env \<Rightarrow> val" where
  "REACT_MEMO_TYPE e = (if hasSymbol e then Sym ''react.memo'' else Num 0xead3)"

definition REACT_FORWARD_REF_TYPE :: "env \<Rightarrow> val" where
  "REACT_FORWARD_REF_TYPE e = (if hasSymbol e then Sym ''react.forward_ref'' else Num 0xead0)"

definition memo_object :: "env \<Rightarrow> val \<Rightarrow> component" where
  "memo_object e type =
     Component False
       [(''$$typeof'', lit (REACT_MEMO_TYPE e)), (''type'', lit type), (''compare'', lit Null)]"

definition React_memo :: "env \<Rightarrow> val \<Rightarrow> error + component" where
  "React_memo e type =
     (if React_has_memo e then Inr (memo_object e type) else Inl TypeError_not_a_function)"

definition forwardRef :: "env \<Rightarrow> val \<Rightarrow> error + component" where
  "forwardRef e render =
     (if \<not> React_has_forwardRef e then Inl TypeError_not_a_function
      else Inr (Component False
                  [(''$$typeof'', lit (REACT_FORWARD_REF_TYPE e)), (''render'', lit render)]))"

definition ReactForwardRefSymbol :: "env \<Rightarrow> val" where
  "ReactForwardRefSymbol e =
     (if hasSymbol e then Sym ''react.forward_ref''
      else if React_has_forwardRef e then REACT_FORWARD_REF_TYPE e
      else Bool False)"

definition ReactMemoSymbol :: "env \<Rightarrow> val" where
  "ReactMemoSymbol e =
     (if hasSymbol e then Sym ''react.memo''
      else if React_has_memo e then comp_get (memo_object e (FunRef 0)) ''$$typeof''
      else Bool False)"

text \<open>
  \<^verbatim>\<open>observer\<close> of mobx-react-lite (not part of this repository), outside static
  rendering: the function it is given, made reactive and wrapped in \<^verbatim>\<open>React.memo\<close>.
  A function object has its own \<^verbatim>\<open>length\<close> and \<^verbatim>\<open>name\<close>, neither enumerable nor
  writable.
\<close>

definition function_object :: "env \<Rightarrow> int \<Rightarrow> string \<Rightarrow> component" where
  "function_object e n nm =
     Component True
       [(''length'', Data (Num n) False False True),
        (''name'', Data (Str nm) False False (isFunctionNameConfigurable e))]"

definition observer :: "env \<Rightarrow> error + component" where
  "observer e = React_memo e (Comp (function_object e 1 []))"

text \<open>
  The template literals \<^verbatim>\<open>`ObserverWrapper${displayName}`\<close> and \<^verbatim>\<open>`Wrap${name}`\<close>;
  \<^verbatim>\<open>displayName\<close> and \<^verbatim>\<open>name\<close> are strings when they are truthy, as their types say.
\<close>

definition prefixed :: "string \<Rightarrow> val \<Rightarrow> val" where
  "prefixed p v = (if truthy v then (case v of Str s \<Rightarrow> Str (p @ s) | _ \<Rightarrow> v) else v)"

definition double_wrap_message :: string where
  "double_wrap_message =
     ''[@writercolab/react-mobx] You are trying to use `observer` on a function component wrapped in either another `observer` or `React.memo`. The observer already applies ''
     @ [CHR 0x27] @ ''React.memo'' @ [CHR 0x27] @ '' for you.''"

definition render_not_a_function_message :: string where
  "render_not_a_function_message =
     ''[@writercolab/react-mobx] `render` property of ForwardRef was not a function''"

text \<open>
  What \<^verbatim>\<open>observerWithModel\<close> builds: the component it returns, the inner
  \<^verbatim>\<open>ObserverWrapper\<close>, the render function \<^verbatim>\<open>ObserverWrapper\<close> calls, and whether
  the base component was a \<^verbatim>\<open>forwardRef\<close>.
\<close>

record produced =
  returned :: component
  ObserverWrapper :: component
  render :: val
  useForwardRef :: bool

definition bind_err :: "error + 'a \<Rightarrow> ('a \<Rightarrow> error + 'b) \<Rightarrow> error + 'b" where
  "bind_err r f = (case r of Inl e \<Rightarrow> Inl e | Inr x \<Rightarrow> f x)"

definition make_ObserverWrapper :: "env \<Rightarrow> component \<Rightarrow> error + component" where
  "make_ObserverWrapper e baseComponent =
     bind_err (observer e)
       (\<lambda>w0. bind_err (set_property w0 ''displayName''
                        (prefixed ''ObserverWrapper'' (comp_get baseComponent ''displayName'')))
          (\<lambda>w1. bind_err (if isFunctionNameConfigurable e
                          then define_name w1 (prefixed ''Wrap'' (comp_get baseComponent ''name''))
                          else Inr w1)
             (\<lambda>w2. copyStaticProperties baseComponent w2)))"

definition make_observerComponent :: "env \<Rightarrow> component \<Rightarrow> bool \<Rightarrow> error + component" where
  "make_observerComponent e baseComponent fwd =
     bind_err (set_property (function_object e 2 ''observerComponent'') ''displayName''
                 (comp_get baseComponent ''displayName''))
       (\<lambda>f1. bind_err (if isFunctionNameConfigurable e
                       then define_name f1 (comp_get baseComponent ''name'')
                       else Inr f1)
          (\<lambda>f2. bind_err (if fwd then forwardRef e (Comp f2) else Inr f2)
             (\<lambda>c. bind_err (React_memo e (Comp c))
                (\<lambda>m. copyStaticProperties baseComponent m))))"

definition observerWithModel :: "env \<Rightarrow> model_class \<Rightarrow> component \<Rightarrow> error + produced" where
  "observerWithModel e Model baseComponent =
     (if truthy (ReactMemoSymbol e) \<and> comp_get baseComponent ''$$typeof'' = ReactMemoSymbol e
      then Inl (Error double_wrap_message)
      else
        (let fwd = (truthy (ReactForwardRefSymbol e) \<and>
                    comp_get baseComponent ''$$typeof'' = ReactForwardRefSymbol e);
             rnd = (if fwd then comp_get baseComponent ''render'' else Comp baseComponent)
         in if fwd \<and> \<not> is_function rnd
            then Inl (Error render_not_a_function_message)
            else
              bind_err (make_ObserverWrapper e baseComponent)
                (\<lambda>w. bind_err (make_observerComponent e baseComponent fwd)
                   (\<lambda>c. Inr \<lparr>returned = c, ObserverWrapper = w, render = rnd,
                             useForwardRef = fwd\<rparr>))))"




section \<open>The lazy accessor: proofs\<close>

lemma installed_get_fresh:
  "map_m cr k = None \<Longrightarrow>
   installed_get (Some s) k cr =
     (Inr (js_get s k),
      cr\<lparr>map_m := (map_m cr)(k \<mapsto> \<lparr>c_id = next_id cr, c_key = k,
                                     c_equals = equals_for (model cr) k,
                                     c_value = None\<rparr>),
         next_id := Suc (next_id cr)\<rparr>)"
  by (simp add: installed_get_def computed_get_def Let_def)

lemma installed_get_cached:
  "map_m cr k = Some c \<Longrightarrow>
   installed_get snapshot k cr =
     (fst (computed_get snapshot c), cr\<lparr>map_m := (map_m cr)(k \<mapsto> snd (computed_get snapshot c))\<rparr>)"
  by (simp add: installed_get_def Let_def split: prod.splits)

lemma computed_get_frame:
  "c_id (snd (computed_get snapshot c)) = c_id c \<and>
   c_key (snd (computed_get snapshot c)) = c_key c \<and>
   c_equals (snd (computed_get snapshot c)) = c_equals c"
  by (simp add: computed_get_def Let_def split: option.splits)

lemma observe_frame:
  "c_id (observe s c) = c_id c \<and> c_key (observe s c) = c_key c \<and>
   c_equals (observe s c) = c_equals c"
  by (simp add: observe_def split: option.splits)

lemma suspend_frame:
  "c_id (suspend c) = c_id c \<and> c_key (suspend c) = c_key c \<and>
   c_equals (suspend c) = c_equals c"
  by (simp add: suspend_def)

lemma cache_inv_createModel: "cache_inv (createModel i M)"
  by (simp add: cache_inv_def createModel_def)

lemma call_get_model: "model (snd (call_get snapshot k cr)) = model cr"
  by (simp add: call_get_def installed_get_def Let_def split: getter.splits option.splits prod.splits)

lemma call_get_dom:
  "get (model cr) = Installed \<Longrightarrow> dom (map_m (snd (call_get snapshot k cr))) = insert k (dom (map_m cr))"
  by (auto simp add: call_get_def installed_get_def Let_def split: getter.splits option.splits prod.splits if_splits)


lemma track_frame:
  "model (track s k cr) = model cr \<and> next_id (track s k cr) = next_id cr \<and>
   dom (map_m (track s k cr)) = dom (map_m cr)"
  by (auto simp: track_def split: option.splits)

lemma untrack_frame:
  "model (untrack k cr) = model cr \<and> next_id (untrack k cr) = next_id cr \<and>
   dom (map_m (untrack k cr)) = dom (map_m cr)"
  by (auto simp: untrack_def split: option.splits)

lemma cache_inv_update:
  assumes inv: "cache_inv cr" and hit: "map_m cr k = Some c"
    and fr: "c_id c' = c_id c" "c_key c' = c_key c" "c_equals c' = c_equals c"
  shows "cache_inv (cr\<lparr>map_m := (map_m cr)(k \<mapsto> c')\<rparr>)"
proof -
  have kd: "insert k (dom (map_m cr)) = dom (map_m cr)" using hit by auto
  have a: "\<And>k c. map_m cr k = Some c \<Longrightarrow>
      c_key c = k \<and> c_equals c = equals_for (model cr) k \<and> c_id c < next_id cr"
    using inv by (simp add: cache_inv_def)
  have b0: "\<forall>k k' c c'. map_m cr k = Some c \<longrightarrow> map_m cr k' = Some c' \<longrightarrow> c_id c = c_id c' \<longrightarrow> k = k'"
    using inv unfolding cache_inv_def by (elim conjE)
  have b: "\<And>k k' c c'. map_m cr k = Some c \<Longrightarrow> map_m cr k' = Some c' \<Longrightarrow> c_id c = c_id c' \<Longrightarrow> k = k'"
    using b0 by blast
  have 1: "\<forall>ka ca. ((map_m cr)(k \<mapsto> c')) ka = Some ca \<longrightarrow>
      c_key ca = ka \<and> c_equals ca = equals_for (model cr) ka \<and> c_id ca < next_id cr"
  proof (intro allI impI)
    fix ka ca assume A: "((map_m cr)(k \<mapsto> c')) ka = Some ca"
    show "c_key ca = ka \<and> c_equals ca = equals_for (model cr) ka \<and> c_id ca < next_id cr"
    proof (cases "ka = k")
      case True
      then have "ca = c'" using A by simp
      then show ?thesis using a[OF hit] fr True by simp
    next
      case False
      then have "map_m cr ka = Some ca" using A by simp
      then show ?thesis by (rule a)
    qed
  qed
  have 2: "\<forall>ka kb ca cb. ((map_m cr)(k \<mapsto> c')) ka = Some ca \<longrightarrow>
      ((map_m cr)(k \<mapsto> c')) kb = Some cb \<longrightarrow> c_id ca = c_id cb \<longrightarrow> ka = kb"
  proof (intro allI impI)
    fix ka kb ca cb
    assume A: "((map_m cr)(k \<mapsto> c')) ka = Some ca" and B: "((map_m cr)(k \<mapsto> c')) kb = Some cb"
      and C: "c_id ca = c_id cb"
    have "\<exists>da. map_m cr ka = Some da \<and> c_id da = c_id ca"
      using A hit fr(1) by (cases "ka = k") simp_all
    then obtain da where da: "map_m cr ka = Some da" "c_id da = c_id ca" by blast
    have "\<exists>db. map_m cr kb = Some db \<and> c_id db = c_id cb"
      using B hit fr(1) by (cases "kb = k") simp_all
    then obtain db where db: "map_m cr kb = Some db" "c_id db = c_id cb" by blast
    show "ka = kb" using b[OF da(1) db(1)] da(2) db(2) C by simp
  qed
  have g: "get (model cr) = Installed" using inv by (simp add: cache_inv_def)
  have fin: "finite (dom (map_m cr))" and cd: "card (dom (map_m cr)) = next_id cr"
    using inv by (simp_all add: cache_inv_def)
  let ?cr' = "cr\<lparr>map_m := (map_m cr)(k \<mapsto> c')\<rparr>"
  have sel: "map_m ?cr' = (map_m cr)(k \<mapsto> c')" "next_id ?cr' = next_id cr" "model ?cr' = model cr"
    by simp_all
  show ?thesis
    unfolding cache_inv_def sel
  proof (intro conjI)
    show "get (model cr) = Installed" by (rule g)
    show "finite (dom ((map_m cr)(k \<mapsto> c')))" using fin by simp
    show "card (dom ((map_m cr)(k \<mapsto> c'))) = next_id cr" using cd kd by simp
    show "\<forall>ka ca. ((map_m cr)(k \<mapsto> c')) ka = Some ca \<longrightarrow>
      c_key ca = ka \<and> c_equals ca = equals_for (model cr) ka \<and> c_id ca < next_id cr" by (rule 1)
    show "\<forall>ka kb ca cb. ((map_m cr)(k \<mapsto> c')) ka = Some ca \<longrightarrow>
      ((map_m cr)(k \<mapsto> c')) kb = Some cb \<longrightarrow> c_id ca = c_id cb \<longrightarrow> ka = kb" by (rule 2)
  qed
qed

lemma cache_inv_insert:
  assumes inv: "cache_inv cr" and miss: "map_m cr k = None"
    and fr: "c_id c' = next_id cr" "c_key c' = k" "c_equals c' = equals_for (model cr) k"
  shows "cache_inv (cr\<lparr>map_m := (map_m cr)(k \<mapsto> c'), next_id := Suc (next_id cr)\<rparr>)"
proof -
  have knd: "k \<notin> dom (map_m cr)" using miss by auto
  have fin: "finite (dom (map_m cr))" and cd: "card (dom (map_m cr)) = next_id cr"
    using inv by (simp_all add: cache_inv_def)
  have a: "\<And>k c. map_m cr k = Some c \<Longrightarrow>
      c_key c = k \<and> c_equals c = equals_for (model cr) k \<and> c_id c < next_id cr"
    using inv by (simp add: cache_inv_def)
  have b0: "\<forall>k k' c c'. map_m cr k = Some c \<longrightarrow> map_m cr k' = Some c' \<longrightarrow> c_id c = c_id c' \<longrightarrow> k = k'"
    using inv unfolding cache_inv_def by (elim conjE)
  have b: "\<And>k k' c c'. map_m cr k = Some c \<Longrightarrow> map_m cr k' = Some c' \<Longrightarrow> c_id c = c_id c' \<Longrightarrow> k = k'"
    using b0 by blast
  have 0: "card (insert k (dom (map_m cr))) = Suc (next_id cr)"
    using fin knd cd by simp
  have 1: "\<forall>ka ca. ((map_m cr)(k \<mapsto> c')) ka = Some ca \<longrightarrow>
      c_key ca = ka \<and> c_equals ca = equals_for (model cr) ka \<and> c_id ca < Suc (next_id cr)"
  proof (intro allI impI)
    fix ka ca assume A: "((map_m cr)(k \<mapsto> c')) ka = Some ca"
    show "c_key ca = ka \<and> c_equals ca = equals_for (model cr) ka \<and> c_id ca < Suc (next_id cr)"
    proof (cases "ka = k")
      case True
      then have "ca = c'" using A by simp
      then show ?thesis using fr True by simp
    next
      case False
      then have "map_m cr ka = Some ca" using A by simp
      then show ?thesis using a[of ka ca] by simp
    qed
  qed
  have 2: "\<forall>ka kb ca cb. ((map_m cr)(k \<mapsto> c')) ka = Some ca \<longrightarrow>
      ((map_m cr)(k \<mapsto> c')) kb = Some cb \<longrightarrow> c_id ca = c_id cb \<longrightarrow> ka = kb"
  proof (intro allI impI)
    fix ka kb ca cb
    assume A: "((map_m cr)(k \<mapsto> c')) ka = Some ca" and B: "((map_m cr)(k \<mapsto> c')) kb = Some cb"
      and C: "c_id ca = c_id cb"
    show "ka = kb"
    proof (cases "ka = k")
      case True
      show ?thesis
      proof (cases "kb = k")
        case True with \<open>ka = k\<close> show ?thesis by simp
      next
        case False
        then have "map_m cr kb = Some cb" using B by simp
        then have "c_id cb < next_id cr" using a by blast
        moreover have "c_id ca = next_id cr" using A True fr by simp
        ultimately show ?thesis using C by simp
      qed
    next
      case False
      then have ma: "map_m cr ka = Some ca" using A by simp
      then have lt: "c_id ca < next_id cr" using a by blast
      show ?thesis
      proof (cases "kb = k")
        case True
        then have "c_id cb = next_id cr" using B fr by simp
        then show ?thesis using lt C by simp
      next
        case False
        then have "map_m cr kb = Some cb" using B by simp
        then show ?thesis using b[OF ma _ C] by simp
      qed
    qed
  qed
  have g: "get (model cr) = Installed" using inv by (simp add: cache_inv_def)
  let ?cr' = "cr\<lparr>map_m := (map_m cr)(k \<mapsto> c'), next_id := Suc (next_id cr)\<rparr>"
  have sel: "map_m ?cr' = (map_m cr)(k \<mapsto> c')" "next_id ?cr' = Suc (next_id cr)" "model ?cr' = model cr"
    by simp_all
  show ?thesis
    unfolding cache_inv_def sel
  proof (intro conjI)
    show "get (model cr) = Installed" by (rule g)
    show "finite (dom ((map_m cr)(k \<mapsto> c')))" using fin by simp
    show "card (dom ((map_m cr)(k \<mapsto> c'))) = Suc (next_id cr)" using 0 by simp
    show "\<forall>ka ca. ((map_m cr)(k \<mapsto> c')) ka = Some ca \<longrightarrow>
      c_key ca = ka \<and> c_equals ca = equals_for (model cr) ka \<and> c_id ca < Suc (next_id cr)" by (rule 1)
    show "\<forall>ka kb ca cb. ((map_m cr)(k \<mapsto> c')) ka = Some ca \<longrightarrow>
      ((map_m cr)(k \<mapsto> c')) kb = Some cb \<longrightarrow> c_id ca = c_id cb \<longrightarrow> ka = kb" by (rule 2)
  qed
qed

lemma cache_inv_call_get:
  assumes "cache_inv cr"
  shows "cache_inv (snd (call_get snapshot k cr))"
proof (cases "map_m cr k")
  case None
  let ?r = "\<lparr>c_id = next_id cr, c_key = k, c_equals = equals_for (model cr) k, c_value = None\<rparr>"
  let ?c' = "snd (computed_get snapshot ?r)"
  have fr: "c_id ?c' = next_id cr" "c_key ?c' = k" "c_equals ?c' = equals_for (model cr) k"
    using computed_get_frame[of snapshot ?r] by simp_all
  have eq: "snd (call_get snapshot k cr) = cr\<lparr>map_m := (map_m cr)(k \<mapsto> ?c'), next_id := Suc (next_id cr)\<rparr>"
    using assms None by (simp add: call_get_def installed_get_def cache_inv_def Let_def split: prod.splits)
  show ?thesis
    unfolding eq by (rule cache_inv_insert[OF assms None fr])
next
  case (Some c)
  let ?c' = "snd (computed_get snapshot c)"
  have fr: "c_id ?c' = c_id c" "c_key ?c' = c_key c" "c_equals ?c' = c_equals c"
    using computed_get_frame[of snapshot c] by simp_all
  have eq: "snd (call_get snapshot k cr) = cr\<lparr>map_m := (map_m cr)(k \<mapsto> ?c')\<rparr>"
    using assms Some by (simp add: call_get_def installed_get_cached cache_inv_def)
  show ?thesis
    unfolding eq by (rule cache_inv_update[OF assms Some fr])
qed

lemma cache_inv_track: "cache_inv cr \<Longrightarrow> cache_inv (track s k cr)"
proof (cases "map_m cr k")
  case None
  assume "cache_inv cr"
  then show ?thesis using None by (simp add: track_def)
next
  case (Some c)
  assume inv: "cache_inv cr"
  have fr: "c_id (observe s c) = c_id c" "c_key (observe s c) = c_key c"
    "c_equals (observe s c) = c_equals c"
    using observe_frame[of s c] by simp_all
  have eq: "track s k cr = cr\<lparr>map_m := (map_m cr)(k \<mapsto> observe s c)\<rparr>"
    using Some by (simp add: track_def)
  show ?thesis
    unfolding eq by (rule cache_inv_update[OF inv Some fr])
qed

lemma cache_inv_untrack: "cache_inv cr \<Longrightarrow> cache_inv (untrack k cr)"
proof (cases "map_m cr k")
  case None
  assume "cache_inv cr"
  then show ?thesis using None by (simp add: untrack_def)
next
  case (Some c)
  assume inv: "cache_inv cr"
  have fr: "c_id (suspend c) = c_id c" "c_key (suspend c) = c_key c"
    "c_equals (suspend c) = c_equals c"
    using suspend_frame[of c] by simp_all
  have eq: "untrack k cr = cr\<lparr>map_m := (map_m cr)(k \<mapsto> suspend c)\<rparr>"
    using Some by (simp add: untrack_def)
  show ?thesis
    unfolding eq by (rule cache_inv_update[OF inv Some fr])
qed

lemma reads_inv: "cache_inv cr \<Longrightarrow> cache_inv (reads rs cr)"
  by (induction rs cr rule: reads.induct)
     (simp_all add: cache_inv_call_get cache_inv_track cache_inv_untrack)

lemma reads_model: "model (reads rs cr) = model cr"
  by (induction rs cr rule: reads.induct)
     (simp_all add: call_get_model track_frame untrack_frame)

lemma reads_dom:
  "cache_inv cr \<Longrightarrow> dom (map_m (reads rs cr)) = dom (map_m cr) \<union> set (accessed rs)"
proof (induction rs cr rule: reads.induct)
  case (1 cr)
  then show ?case by simp
next
  case (2 s k rs cr)
  have inst: "get (model cr) = Installed" using "2.prems" by (simp add: cache_inv_def)
  show ?case
    using "2.IH"[OF cache_inv_call_get[OF "2.prems", of "Some s" k]]
      call_get_dom[OF inst, of "Some s" k]
    by auto
next
  case (3 s k rs cr)
  have inst: "get (model cr) = Installed" using "3.prems" by (simp add: cache_inv_def)
  show ?case
    using "3.IH"[OF cache_inv_track[OF cache_inv_call_get[OF "3.prems", of "Some s" k], of s k]]
      call_get_dom[OF inst, of "Some s" k] track_frame[of s k "snd (call_get (Some s) k cr)"]
    by auto
next
  case (4 k rs cr)
  show ?case
    using "4.IH"[OF cache_inv_untrack[OF "4.prems", of k]] untrack_frame[of k cr]
    by auto
qed

lemma reads_createModel_inv: "cache_inv (reads rs (createModel i M))"
  by (rule reads_inv[OF cache_inv_createModel])

lemma reads_createModel_dom: "dom (map_m (reads rs (createModel i M))) = set (accessed rs)"
  using reads_dom[OF cache_inv_createModel, of rs i M] by (simp add: createModel_def)

lemma equals_for_createModel:
  "equals_for (model (reads rs (createModel i M))) k =
     (case M of
        None \<Rightarrow> comparer_identity
      | Some a \<Rightarrow>
          (case entries a k of
             Some (Some e) \<Rightarrow> e
           | Some None \<Rightarrow> comparer_identity
           | None \<Rightarrow>
               if k \<in> set Object_prototype_keys then inherited_entry a k
               else comparer_identity))"
  by (simp add: reads_model equals_for_def createModel_def ReactModel_def)

text \<open>
  What \<^verbatim>\<open>get\<close> does once \<^verbatim>\<open>createModel\<close> has installed it, after any sequence of reads
  inside and outside reactions. A read of a key with no entry in the \<^verbatim>\<open>Map\<close> builds one
  computed value for \<^verbatim>\<open>getProps()[key]\<close> with the comparator \<^verbatim>\<open>createModel\<close> finds for
  the key, stores it and returns its value. A read of a key with an entry builds
  nothing: it returns the current value of the stored computed value, which keeps its
  identity. The keys of the \<^verbatim>\<open>Map\<close> are exactly the keys read, the number of computed
  values built is the number of distinct keys read, and no computed value is stored
  under two keys. The comparator is the own entry of the annotations for the key; with
  no own entry it is the value inherited from \<^verbatim>\<open>Object.prototype\<close> when the key names
  one, and \<^verbatim>\<open>comparer.identity\<close> otherwise.
\<close>

lemma get_builds_once_per_key:
  "let cr = reads rs (createModel i M) in
     (map_m cr k = None \<longrightarrow>
        call_get (Some s) k cr =
          (Inr (js_get s k),
           cr\<lparr>map_m := (map_m cr)(k \<mapsto> \<lparr>c_id = next_id cr, c_key = k,
                                          c_equals = equals_for (model cr) k,
                                          c_value = None\<rparr>),
              next_id := Suc (next_id cr)\<rparr>)) \<and>
     (\<forall>c. map_m cr k = Some c \<longrightarrow>
        call_get (Some s) k cr =
          (fst (computed_get (Some s) c),
           cr\<lparr>map_m := (map_m cr)(k \<mapsto> snd (computed_get (Some s) c))\<rparr>) \<and>
        c_id (snd (computed_get (Some s) c)) = c_id c \<and>
        c_key c = k \<and> c_equals c = equals_for (model cr) k) \<and>
     dom (map_m cr) = set (accessed rs) \<and>
     next_id cr = card (set (accessed rs)) \<and>
     (\<forall>k1 k2 c1 c2. map_m cr k1 = Some c1 \<longrightarrow> map_m cr k2 = Some c2 \<longrightarrow>
        c_id c1 = c_id c2 \<longrightarrow> k1 = k2)"
proof -
  define cr where "cr = reads rs (createModel i M)"
  have inv: "cache_inv cr" unfolding cr_def by (rule reads_createModel_inv)
  have inst: "get (model cr) = Installed" using inv by (simp add: cache_inv_def)
  have 1: "map_m cr k = None \<longrightarrow>
        call_get (Some s) k cr =
          (Inr (js_get s k),
           cr\<lparr>map_m := (map_m cr)(k \<mapsto> \<lparr>c_id = next_id cr, c_key = k,
                                          c_equals = equals_for (model cr) k,
                                          c_value = None\<rparr>),
              next_id := Suc (next_id cr)\<rparr>)"
    using inst by (simp add: call_get_def installed_get_fresh)
  have 2: "\<forall>c. map_m cr k = Some c \<longrightarrow>
        call_get (Some s) k cr =
          (fst (computed_get (Some s) c),
           cr\<lparr>map_m := (map_m cr)(k \<mapsto> snd (computed_get (Some s) c))\<rparr>) \<and>
        c_id (snd (computed_get (Some s) c)) = c_id c \<and>
        c_key c = k \<and> c_equals c = equals_for (model cr) k"
  proof (intro allI impI)
    fix c assume hit: "map_m cr k = Some c"
    have "c_key c = k \<and> c_equals c = equals_for (model cr) k"
      using inv hit unfolding cache_inv_def by blast
    then show "call_get (Some s) k cr =
          (fst (computed_get (Some s) c),
           cr\<lparr>map_m := (map_m cr)(k \<mapsto> snd (computed_get (Some s) c))\<rparr>) \<and>
        c_id (snd (computed_get (Some s) c)) = c_id c \<and>
        c_key c = k \<and> c_equals c = equals_for (model cr) k"
      using inst hit computed_get_frame[of "Some s" c]
      by (simp add: call_get_def installed_get_cached)
  qed
  have 4: "dom (map_m cr) = set (accessed rs)"
    unfolding cr_def by (rule reads_createModel_dom)
  have 5: "next_id cr = card (set (accessed rs))"
    using inv 4 by (simp add: cache_inv_def)
  have 6: "\<forall>k1 k2 c1 c2. map_m cr k1 = Some c1 \<longrightarrow> map_m cr k2 = Some c2 \<longrightarrow>
        c_id c1 = c_id c2 \<longrightarrow> k1 = k2"
    using inv unfolding cache_inv_def by (elim conjE)
  show ?thesis
    unfolding Let_def cr_def[symmetric] using 1 2 4 5 6 by (intro conjI)
qed

text \<open>
  Claim C1 fails on the code in the default of the comparator. The model class below
  passes the annotations \<^verbatim>\<open>{ value: comparer.identity }\<close>, so no comparator is
  configured for the key \<^verbatim>\<open>toString\<close>. \<^verbatim>\<open>createModel\<close> reads
  \<^verbatim>\<open>model.annotations?.['toString']\<close> on that object literal and finds
  \<^verbatim>\<open>Object.prototype.toString\<close>, which is not nullish, so \<^verbatim>\<open>comparer.identity\<close> is not
  used: the computed value of the key gets a comparator that takes any two values for
  equal (it returns a non-empty string). Read inside a reaction with \<^verbatim>\<open>toString: 1\<close>
  and read again with \<^verbatim>\<open>toString: 2\<close>, the accessor returns 1 both times, where
  \<^verbatim>\<open>comparer.identity\<close> tells 1 from 2.
\<close>

theorem default_comparator_inherited_toString:
  "entries (Annotations [''value'' \<mapsto> Some comparer_identity] (\<lambda>k a b. True)) ''toString'' = None \<and>
   fst (call_get (Some [(''toString'', Num 1)]) ''toString''
          (createModel 0 (Some (Annotations [''value'' \<mapsto> Some comparer_identity] (\<lambda>k a b. True)))))
     = Inr (Num 1) \<and>
   map_option (\<lambda>c. (c_equals c (Num 1) (Num 2), c_value c))
     (map_m (reads [GetTracked [(''toString'', Num 1)] ''toString'']
               (createModel 0 (Some (Annotations [''value'' \<mapsto> Some comparer_identity] (\<lambda>k a b. True)))))
        ''toString'')
     = Some (True, Some (Num 1)) \<and>
   comparer_identity (Num 1) (Num 2) = False \<and>
   fst (call_get (Some [(''toString'', Num 2)]) ''toString''
          (reads [GetTracked [(''toString'', Num 1)] ''toString'']
             (createModel 0 (Some (Annotations [''value'' \<mapsto> Some comparer_identity] (\<lambda>k a b. True))))))
     = Inr (Num 1)"
proof -
  let ?M = "Some (Annotations [''value'' \<mapsto> Some comparer_identity] (\<lambda>k a b. True))"
  let ?c = "\<lparr>c_id = 0, c_key = ''toString'', c_equals = (\<lambda>a b. True), c_value = Some (Num 1)\<rparr>"
  have e: "equals_for (model (createModel 0 ?M)) ''toString'' = (\<lambda>a b. True)"
    by (simp add: equals_for_def createModel_def ReactModel_def Object_prototype_keys_def)
  have g: "call_get (Some [(''toString'', Num 1)]) ''toString'' (createModel 0 ?M) =
      (Inr (Num 1),
       (createModel 0 ?M)\<lparr>map_m := [''toString'' \<mapsto>
           \<lparr>c_id = 0, c_key = ''toString'', c_equals = (\<lambda>a b. True), c_value = None\<rparr>],
         next_id := 1\<rparr>)"
    using e by (simp add: call_get_def installed_get_fresh createModel_def ReactModel_def js_get_def)
  have r: "reads [GetTracked [(''toString'', Num 1)] ''toString''] (createModel 0 ?M) =
      (createModel 0 ?M)\<lparr>map_m := [''toString'' \<mapsto> ?c], next_id := 1\<rparr>"
    by (simp add: g track_def observe_def js_get_def)
  have 1: "entries (Annotations [''value'' \<mapsto> Some comparer_identity] (\<lambda>k a b. True)) ''toString'' = None"
    by simp
  have 2: "fst (call_get (Some [(''toString'', Num 1)]) ''toString'' (createModel 0 ?M)) = Inr (Num 1)"
    by (simp add: g)
  have 3: "map_option (\<lambda>c. (c_equals c (Num 1) (Num 2), c_value c))
     (map_m (reads [GetTracked [(''toString'', Num 1)] ''toString''] (createModel 0 ?M)) ''toString'')
     = Some (True, Some (Num 1))"
    unfolding r by simp
  have 4: "comparer_identity (Num 1) (Num 2) = False"
    by (simp add: comparer_identity_def)
  have 5: "fst (call_get (Some [(''toString'', Num 2)]) ''toString''
          (reads [GetTracked [(''toString'', Num 1)] ''toString''] (createModel 0 ?M))) = Inr (Num 1)"
    unfolding r
    by (simp add: call_get_def installed_get_cached computed_get_def createModel_def js_get_def)
  show ?thesis
    by (rule conjI[OF 1 conjI[OF 2 conjI[OF 3 conjI[OF 4 5]]]])
qed

text \<open>
  Claim C2. On a model that the constructor of \<^verbatim>\<open>ReactModel\<close> has built and
  \<^verbatim>\<open>createModel\<close> has not touched, \<^verbatim>\<open>get\<close> throws the error of \<^verbatim>\<open>die\<close>, for
  every key and every annotations argument, and leaves the state as it is.
\<close>

theorem get_before_install_dies:
  "call_get snapshot k (cr\<lparr>model := ReactModel i ann\<rparr>) =
     (Inl (Error ''need to be reimplemented with useModel''), cr\<lparr>model := ReactModel i ann\<rparr>)"
  by (simp add: call_get_def ReactModel_def die_def)

lemma reads_dispose: "reads rs (dispose cr) = dispose cr"
proof (induction rs)
  case Nil
  then show ?case by simp
next
  case (Cons a rs)
  have g: "\<And>s k. snd (call_get (Some s) k (dispose cr)) = dispose cr"
    by (simp add: call_get_def dispose_def)
  have t: "\<And>s k. track s k (dispose cr) = dispose cr"
    by (simp add: track_def dispose_def)
  have u: "\<And>k. untrack k (dispose cr) = dispose cr"
    by (simp add: untrack_def dispose_def)
  show ?case
    using Cons.IH by (cases a) (simp_all add: g t u)
qed

text \<open>
  Claim C3, as stated, fails: \<^verbatim>\<open>dispose\<close> assigns \<^verbatim>\<open>null\<close> to \<^verbatim>\<open>get\<close>, so a call
  after disposal fails because \<^verbatim>\<open>null\<close> is not a function, which is not the error that
  \<^verbatim>\<open>die\<close> throws before installation.
\<close>

theorem get_after_dispose_counterexample:
  "fst (call_get (Some [(''value'', Num 10)]) ''value'' (dispose (createModel 0 None)))
     = Inl TypeError_not_a_function \<and>
   fst (call_get (Some [(''value'', Num 10)]) ''value''
          \<lparr>model = ReactModel 0 None, map_m = Map.empty, next_id = 0\<rparr>)
     = Inl (Error ''need to be reimplemented with useModel'') \<and>
   fst (call_get (Some [(''value'', Num 10)]) ''value'' (dispose (createModel 0 None)))
     \<noteq> fst (call_get (Some [(''value'', Num 10)]) ''value''
          \<lparr>model = ReactModel 0 None, map_m = Map.empty, next_id = 0\<rparr>)"
  by (simp add: call_get_def dispose_def createModel_def ReactModel_def die_def)

text \<open>
  Claim C3, amended. After \<^verbatim>\<open>dispose\<close>, every call of \<^verbatim>\<open>get\<close>, also after any number
  of earlier calls, fails with the TypeError of calling a value that is not a function,
  and leaves the disposed state as it is.
\<close>

theorem get_after_dispose_not_a_function:
  "call_get snapshot k (reads rs (dispose cr)) = (Inl TypeError_not_a_function, dispose cr)"
  by (simp add: reads_dispose) (simp add: call_get_def dispose_def)

text \<open>
  Claim C8. \<^verbatim>\<open>dispose\<close> is idempotent: a second call changes nothing. After
  \<^verbatim>\<open>dispose\<close> the accessor is \<^verbatim>\<open>null\<close> and the \<^verbatim>\<open>Map\<close> is empty; the rest of the
  model is untouched. \<^verbatim>\<open>dispose\<close> has no failing branch.
\<close>

theorem dispose_idempotent:
  "dispose (dispose cr) = dispose cr \<and>
   get (model (dispose cr)) = NullGet \<and>
   map_m (dispose cr) = Map.empty \<and>
   model_id (model (dispose cr)) = model_id (model cr) \<and>
   annotations (model (dispose cr)) = annotations (model cr) \<and>
   next_id (dispose cr) = next_id cr"
  by (simp add: dispose_def)





section \<open>The mounted instance: proofs\<close>

lemma eq0_refl: "eq0 v v"
  by (simp add: eq0_def strict_equal_def)

lemma comparer_shallow_refl: "comparer_shallow a a"
proof -
  have "\<And>k. k \<in> set (own_keys a) \<Longrightarrow>
      (case (map_of a k, map_of a k) of (Some x, Some y) \<Rightarrow> eq0 x y | _ \<Rightarrow> False)"
  proof -
    fix k assume "k \<in> set (own_keys a)"
    then have "k \<in> fst ` set a" by (simp add: own_keys_def)
    then obtain x where "map_of a k = Some x"
      using map_of_eq_None_iff[of a k] by (cases "map_of a k") auto
    then show "case (map_of a k, map_of a k) of (Some x, Some y) \<Rightarrow> eq0 x y | _ \<Rightarrow> False"
      by (simp add: eq0_refl)
  qed
  then show ?thesis
    unfolding comparer_shallow_def list_all_iff by blast
qed

lemma observerComponent_mounted:
  "refProps st = Some b \<Longrightarrow> refModel st = Some m \<Longrightarrow>
   observerComponent Model props rf st =
     (Inr \<lparr>innerRef = rf, e_model = model_id (model m), e_props = b_id b\<rparr>, st)"
  by (simp add: observerComponent_def)

lemma first_render:
  "render_pass H Model p rf (new_instance n) =
     \<lparr>fresh = Suc (Suc n), refProps = Some \<lparr>b_id = n, b_value = p\<rparr>,
      refModel = Some (createModel (Suc n) Model), deps = Some p, mounted = True,
      log = [ActionStart, ActionEnd]\<rparr>"
  by (simp add: render_pass_def observerComponent_def new_instance_def commit_def sync_effect_def
      comparer_shallow_refl Let_def)

lemma sync_effect_box:
  "refProps st = Some b \<Longrightarrow>
   sync_effect H p st =
     st\<lparr>refProps := Some (if comparer_shallow (H p) (H (b_value b)) then b else b\<lparr>b_value := p\<rparr>),
        log := log st @ (if comparer_shallow (H p) (H (b_value b)) then [ActionStart, ActionEnd]
                         else [ActionStart, BoxSet (b_id b) p, ActionEnd])\<rparr>"
  using comparer_shallow_refl[of "H p"]
  by (auto simp add: sync_effect_def box_set_def Let_def)

lemma render_pass_mounted:
  assumes "mounted_inv H st" and b: "refProps st = Some b"
  shows "render_pass H Model p rf st =
     st\<lparr>refProps := Some (if comparer_shallow (H p) (H (b_value b)) then b else b\<lparr>b_value := p\<rparr>),
        log := log st @ (if comparer_shallow (H p) (H (b_value b))
                         then (if deps st = Some p then [] else [ActionStart, ActionEnd])
                         else [ActionStart, BoxSet (b_id b) p, ActionEnd]),
        deps := Some p\<rparr>"
proof -
  obtain m q where m: "refModel st = Some m" and q: "deps st = Some q"
    and mt: "mounted st" and sh: "comparer_shallow (H q) (H (b_value b))"
    using assms by (auto simp: mounted_inv_def split: option.splits)
  have oc: "snd (observerComponent Model p rf st) = st"
    using observerComponent_mounted[OF b m] by simp
  show ?thesis
  proof (cases "q = p")
    case True
    then show ?thesis
      using oc q mt sh b by (simp add: render_pass_def commit_def)
  next
    case False
    then show ?thesis
      using oc q mt b sync_effect_box[OF b, of H p]
      by (simp add: render_pass_def commit_def Let_def)
  qed
qed

lemma mounted_inv_first: "mounted_inv H (render_pass H Model p rf (new_instance n))"
  by (simp add: first_render mounted_inv_def comparer_shallow_refl)

lemma mounted_inv_render_pass:
  assumes "mounted_inv H st"
  shows "mounted_inv H (render_pass H Model p rf st)"
proof -
  obtain b where b: "refProps st = Some b"
    using assms by (auto simp: mounted_inv_def split: option.splits)
  show ?thesis
    unfolding render_pass_mounted[OF assms b]
    using assms b by (auto simp: mounted_inv_def comparer_shallow_refl split: option.splits)
qed

lemma model_read_frame:
  "refModel st = Some m \<Longrightarrow>
   snd (model_read H k st) = st\<lparr>refModel := Some (snd (call_get (getProps H st) k m))\<rparr>"
  by (simp add: model_read_def split: prod.splits)

lemma mounted_inv_model_read:
  assumes "mounted_inv H st"
  shows "mounted_inv H (snd (model_read H k st))"
proof -
  obtain m where m: "refModel st = Some m"
    using assms by (auto simp: mounted_inv_def split: option.splits)
  show ?thesis
    unfolding model_read_frame[OF m]
    using assms by (auto simp: mounted_inv_def split: option.splits)
qed

lemma mounted_inv_model_track: "mounted_inv H st \<Longrightarrow> mounted_inv H (model_track H k st)"
  by (auto simp: mounted_inv_def model_track_def split: option.splits)

lemma mounted_inv_model_untrack: "mounted_inv H st \<Longrightarrow> mounted_inv H (model_untrack k st)"
  by (auto simp: mounted_inv_def model_untrack_def split: option.splits)

lemma mounted_inv_run: "mounted_inv H st \<Longrightarrow> mounted_inv H (run H Model steps st)"
proof (induction steps arbitrary: st)
  case Nil then show ?case by simp
next
  case (Cons x steps)
  then show ?case
    by (cases x) (simp_all add: mounted_inv_render_pass mounted_inv_model_read
        mounted_inv_model_track mounted_inv_model_untrack)
qed

lemma ids_render_pass: "mounted_inv H st \<Longrightarrow> ids (render_pass H Model p rf st) = ids st"
proof -
  assume inv: "mounted_inv H st"
  obtain b where b: "refProps st = Some b"
    using inv by (auto simp: mounted_inv_def split: option.splits)
  show ?thesis
    unfolding render_pass_mounted[OF inv b] using b by (simp add: ids_def)
qed

lemma ids_model_read: "mounted_inv H st \<Longrightarrow> ids (snd (model_read H k st)) = ids st"
proof -
  assume inv: "mounted_inv H st"
  obtain m where m: "refModel st = Some m"
    using inv by (auto simp: mounted_inv_def split: option.splits)
  show ?thesis
    unfolding model_read_frame[OF m] using m by (simp add: ids_def call_get_model)
qed

lemma ids_model_track: "ids (model_track H k st) = ids st"
  by (auto simp: ids_def model_track_def track_frame split: option.splits)

lemma ids_model_untrack: "ids (model_untrack k st) = ids st"
  by (auto simp: ids_def model_untrack_def untrack_frame split: option.splits)

lemma ids_run: "mounted_inv H st \<Longrightarrow> ids (run H Model steps st) = ids st"
proof (induction steps arbitrary: st)
  case Nil then show ?case by simp
next
  case (Cons x steps)
  show ?case
  proof (cases x)
    case (Render p rf)
    then show ?thesis
      using Cons.IH[OF mounted_inv_render_pass[OF Cons.prems, of Model p rf]]
        ids_render_pass[OF Cons.prems, of Model p rf] by simp
  next
    case (Read k)
    then show ?thesis
      using Cons.IH[OF mounted_inv_model_read[OF Cons.prems, of k]]
        ids_model_read[OF Cons.prems, of k] by simp
  next
    case (ReadTracked k)
    have inv: "mounted_inv H (model_track H k (snd (model_read H k st)))"
      by (rule mounted_inv_model_track[OF mounted_inv_model_read[OF Cons.prems]])
    show ?thesis
      using ReadTracked Cons.IH[OF inv] ids_model_read[OF Cons.prems, of k]
        ids_model_track[of H k "snd (model_read H k st)"] by simp
  next
    case (StopObserving k)
    show ?thesis
      using StopObserving Cons.IH[OF mounted_inv_model_untrack[OF Cons.prems, of k]]
        ids_model_untrack[of k st] by simp
  qed
qed

text \<open>At unmount the model is disposed, so a later read fails as after \<^verbatim>\<open>dispose\<close>.\<close>

lemma unmount_disposes:
  assumes "mounted_inv H st"
  shows "fst (model_read H k (unmount st)) = Inl TypeError_not_a_function"
proof -
  obtain m where m: "refModel st = Some m"
    using assms by (auto simp: mounted_inv_def split: option.splits)
  show ?thesis
    using m by (simp add: unmount_def model_read_def call_get_def dispose_def split: prod.splits)
qed




text \<open>
  Claim C5. The first render allocates the box and the model. After any sequence of
  renders and reads (inside or outside a reaction) the instance holds the box and the
  model with the identities they got then, nothing has been allocated since, and every
  render hands that model and that box to \<^verbatim>\<open>ObserverWrapper\<close>.
\<close>

theorem box_and_model_keep_identity:
  "let st1 = render_pass H Model p0 r0 (new_instance n);
       st = run H Model steps st1
   in map_option b_id (refProps st1) = Some n \<and>
      map_option (\<lambda>m. model_id (model m)) (refModel st1) = Some (Suc n) \<and>
      map_option b_id (refProps st) = Some n \<and>
      map_option (\<lambda>m. model_id (model m)) (refModel st) = Some (Suc n) \<and>
      fresh st = fresh st1 \<and>
      observerComponent Model p rf st =
        (Inr \<lparr>innerRef = rf, e_model = Suc n, e_props = n\<rparr>, st)"
proof -
  define st1 where "st1 = render_pass H Model p0 r0 (new_instance n)"
  define st where "st = run H Model steps st1"
  have inv1: "mounted_inv H st1" unfolding st1_def by (rule mounted_inv_first)
  have inv: "mounted_inv H st" unfolding st_def by (rule mounted_inv_run[OF inv1])
  have i1: "ids st1 = (Some n, Some (Suc n), Suc (Suc n))"
    unfolding st1_def by (simp add: first_render ids_def createModel_def ReactModel_def)
  have i: "ids st = ids st1" unfolding st_def by (rule ids_run[OF inv1])
  obtain b m where b: "refProps st = Some b" and m: "refModel st = Some m"
    using inv by (auto simp: mounted_inv_def split: option.splits)
  have i2: "ids st = (Some n, Some (Suc n), Suc (Suc n))" using i i1 by simp
  have bm: "b_id b = n" "model_id (model m) = Suc n"
    using i2 b m by (simp_all add: ids_def)
  have oc: "observerComponent Model p rf st =
        (Inr \<lparr>innerRef = rf, e_model = Suc n, e_props = n\<rparr>, st)"
    using observerComponent_mounted[OF b m, of Model p rf] bm by simp
  show ?thesis
    unfolding Let_def st1_def[symmetric] st_def[symmetric]
    using i2 i1 oc by (simp add: ids_def)
qed

theorem box_and_model_keep_identity_witness:
  "map_option b_id (refProps (run (\<lambda>r. [(''value'', Num (int r))]) None
        [Render 1 Undefined, Read ''value'', Render 2 Undefined]
        (render_pass (\<lambda>r. [(''value'', Num (int r))]) None 0 Undefined (new_instance 5)))) = Some 5 \<and>
   map_option (\<lambda>m. model_id (model m)) (refModel (run (\<lambda>r. [(''value'', Num (int r))]) None
        [Render 1 Undefined, Read ''value'', Render 2 Undefined]
        (render_pass (\<lambda>r. [(''value'', Num (int r))]) None 0 Undefined (new_instance 5)))) = Some 6 \<and>
   fresh (run (\<lambda>r. [(''value'', Num (int r))]) None
        [Render 1 Undefined, Read ''value'', Render 2 Undefined]
        (render_pass (\<lambda>r. [(''value'', Num (int r))]) None 0 Undefined (new_instance 5))) = 7"
proof -
  have f: "fresh (render_pass (\<lambda>r. [(''value'', Num (int r))]) None 0 Undefined (new_instance 5)) = 7"
    by (simp add: first_render)
  show ?thesis
    using box_and_model_keep_identity[of "\<lambda>r. [(''value'', Num (int r))]" None 0 Undefined 5
        "[Render 1 Undefined, Read ''value'', Render 2 Undefined]" 0 Undefined]
    unfolding Let_def f by simp
qed

section \<open>copyStaticProperties: proofs\<close>







text \<open>
  Claim C9 fails on the code. The base component below has two own enumerable static
  fields, \<^verbatim>\<open>defaultProps\<close> and \<^verbatim>\<open>toString\<close>, neither of them in the reserved set.
  \<^verbatim>\<open>copyStaticProperties\<close> transfers \<^verbatim>\<open>defaultProps\<close> and leaves \<^verbatim>\<open>toString\<close>
  out: \<^verbatim>\<open>hoistBlackList\<close> is an object literal, so \<^verbatim>\<open>hoistBlackList['toString']\<close> is
  the function inherited from \<^verbatim>\<open>Object.prototype\<close>, which is truthy. The reserved
  fields of the target are untouched.
\<close>

theorem copyStaticProperties_skips_toString:
  "Object_keys (Component True
      [(''length'', Data (Num 1) False False True),
       (''name'', Data (Str ''Base'') False False True),
       (''defaultProps'', lit (ObjRef 1)),
       (''toString'', lit (FunRef 2))]) = [''defaultProps'', ''toString''] \<and>
   map_of hoistBlackList ''toString'' = None \<and>
   copyStaticProperties
     (Component True
      [(''length'', Data (Num 1) False False True),
       (''name'', Data (Str ''Base'') False False True),
       (''defaultProps'', lit (ObjRef 1)),
       (''toString'', lit (FunRef 2))])
     (Component False
      [(''$$typeof'', lit (Sym ''react.memo'')), (''type'', lit (FunRef 3)),
       (''compare'', lit Null)])
   = Inr (Component False
      [(''$$typeof'', lit (Sym ''react.memo'')), (''type'', lit (FunRef 3)),
       (''compare'', lit Null), (''defaultProps'', lit (ObjRef 1))])"
  by (simp add: copyStaticProperties_def Object_keys_def lit_def js_get_def hoistBlackList_def
      Object_prototype_def Object_prototype_keys_def defineProperty_def)

section \<open>observerWithModel: proofs\<close>



lemma ReactMemoSymbol_eq:
  "hasSymbol e \<or> React_has_memo e \<Longrightarrow> ReactMemoSymbol e = REACT_MEMO_TYPE e"
  by (auto simp: ReactMemoSymbol_def REACT_MEMO_TYPE_def memo_object_def comp_get_def lit_def)

lemma REACT_MEMO_TYPE_truthy: "truthy (REACT_MEMO_TYPE e)"
  by (simp add: REACT_MEMO_TYPE_def)



lemma set_property_new:
  "map_of (own t) k = None \<Longrightarrow>
   set_property t k v = Inr (Component (callable t) (own t @ [(k, Data v True True True)]))"
  by (simp add: set_property_def)






text \<open>
  Claim C6. Where React has \<^verbatim>\<open>memo\<close>, a base component that carries the tag of
  \<^verbatim>\<open>React.memo\<close> (what \<^verbatim>\<open>React.memo\<close> and \<^verbatim>\<open>observer\<close> return) makes
  \<^verbatim>\<open>observerWithModel\<close> throw its error about double wrapping: the call itself fails,
  no component is built and nothing is rendered.
\<close>

theorem observerWithModel_rejects_memo:
  assumes "hasSymbol e \<or> React_has_memo e"
    and "comp_get baseComponent ''$$typeof'' = REACT_MEMO_TYPE e"
  shows "observerWithModel e Model baseComponent = Inl (Error double_wrap_message)"
proof -
  have "truthy (ReactMemoSymbol e) \<and> comp_get baseComponent ''$$typeof'' = ReactMemoSymbol e"
    unfolding ReactMemoSymbol_eq[OF assms(1)] using assms(2) REACT_MEMO_TYPE_truthy by simp
  then show ?thesis
    unfolding observerWithModel_def by (rule if_P)
qed

theorem observerWithModel_rejects_memo_witness:
  "(hasSymbol \<lparr>hasSymbol = True, isFunctionNameConfigurable = True, React_has_memo = True,
              React_has_forwardRef = True\<rparr> \<or>
    React_has_memo \<lparr>hasSymbol = True, isFunctionNameConfigurable = True, React_has_memo = True,
              React_has_forwardRef = True\<rparr>) \<and>
   comp_get (memo_object \<lparr>hasSymbol = True, isFunctionNameConfigurable = True, React_has_memo = True,
              React_has_forwardRef = True\<rparr> (FunRef 1)) ''$$typeof''
     = REACT_MEMO_TYPE \<lparr>hasSymbol = True, isFunctionNameConfigurable = True, React_has_memo = True,
              React_has_forwardRef = True\<rparr> \<and>
   observerWithModel \<lparr>hasSymbol = True, isFunctionNameConfigurable = True, React_has_memo = True,
              React_has_forwardRef = True\<rparr> None
      (memo_object \<lparr>hasSymbol = True, isFunctionNameConfigurable = True, React_has_memo = True,
              React_has_forwardRef = True\<rparr> (FunRef 1))
     = Inl (Error double_wrap_message)"
proof -
  let ?e = "\<lparr>hasSymbol = True, isFunctionNameConfigurable = True, React_has_memo = True,
              React_has_forwardRef = True\<rparr>"
  have h1: "hasSymbol ?e \<or> React_has_memo ?e" by simp
  have h2: "comp_get (memo_object ?e (FunRef 1)) ''$$typeof'' = REACT_MEMO_TYPE ?e"
    by (simp add: memo_object_def comp_get_def lit_def)
  show ?thesis
    using observerWithModel_rejects_memo[OF h1 h2, of None] h1 h2 by blast
qed



end
